theory Spec2Isabelle
  imports Complex_Main
begin

section \<open>Floating-point values of the notebook\<close>

text \<open>
  The notebook computes on NumPy float64 values. A finite float is idealised as a real
  number (no rounding, no overflow, one zero); the three special values are kept, since
  pandas marks a missing cell with NaN and a division by a zero count gives an infinity
  instead of raising.
\<close>

datatype fl = Num real | PosInf | NegInf | NaN

datatype py_error = KeyError string | ZeroDivisionError | ValueError

definition inf_of_sign :: "bool \<Rightarrow> fl" where
  "inf_of_sign pos = (if pos then PosInf else NegInf)"

fun fl_neg :: "fl \<Rightarrow> fl" where
  "fl_neg (Num x) = Num (- x)"
| "fl_neg PosInf = NegInf"
| "fl_neg NegInf = PosInf"
| "fl_neg NaN = NaN"

fun fl_add :: "fl \<Rightarrow> fl \<Rightarrow> fl" where
  "fl_add (Num x) (Num y) = Num (x + y)"
| "fl_add NaN b = NaN"
| "fl_add a NaN = NaN"
| "fl_add PosInf NegInf = NaN"
| "fl_add NegInf PosInf = NaN"
| "fl_add PosInf b = PosInf"
| "fl_add a PosInf = PosInf"
| "fl_add NegInf b = NegInf"
| "fl_add a NegInf = NegInf"

definition fl_sub :: "fl \<Rightarrow> fl \<Rightarrow> fl" where
  "fl_sub a b = fl_add a (fl_neg b)"

fun fl_mul :: "fl \<Rightarrow> fl \<Rightarrow> fl" where
  "fl_mul (Num x) (Num y) = Num (x * y)"
| "fl_mul NaN b = NaN"
| "fl_mul a NaN = NaN"
| "fl_mul (Num x) b = (if x = 0 then NaN else inf_of_sign ((0 < x) = (b = PosInf)))"
| "fl_mul a (Num y) = (if y = 0 then NaN else inf_of_sign ((0 < y) = (a = PosInf)))"
| "fl_mul a b = inf_of_sign (a = b)"

text \<open>True division of float64 arrays: a zero divisor gives an infinity or NaN, never an
  exception.\<close>

fun fl_div :: "fl \<Rightarrow> fl \<Rightarrow> fl" where
  "fl_div (Num x) (Num y) =
     (if y \<noteq> 0 then Num (x / y) else if x = 0 then NaN else inf_of_sign (0 < x))"
| "fl_div NaN b = NaN"
| "fl_div a NaN = NaN"
| "fl_div (Num x) b = Num 0"
| "fl_div a (Num y) = inf_of_sign ((0 \<le> y) = (a = PosInf))"
| "fl_div a b = NaN"

text \<open>The power of float64 arrays (C's \<open>pow\<close>).\<close>

definition is_integer :: "real \<Rightarrow> bool" where
  "is_integer b = (of_int \<lfloor>b\<rfloor> = b)"

fun fl_pow_cases :: "fl \<Rightarrow> fl \<Rightarrow> fl" where
  "fl_pow_cases NaN y = NaN"
| "fl_pow_cases x NaN = NaN"
| "fl_pow_cases (Num a) (Num b) =
     (if 0 < a then Num (a powr b)
      else if a = 0 then (if b < 0 then PosInf else Num 0)
      else if is_integer b
        then Num (if even \<lfloor>b\<rfloor> then (- a) powr b else - ((- a) powr b))
        else NaN)"
| "fl_pow_cases (Num a) PosInf =
     (if \<bar>a\<bar> < 1 then Num 0 else if \<bar>a\<bar> = 1 then Num 1 else PosInf)"
| "fl_pow_cases (Num a) NegInf =
     (if \<bar>a\<bar> < 1 then PosInf else if \<bar>a\<bar> = 1 then Num 1 else Num 0)"
| "fl_pow_cases PosInf (Num b) = (if b < 0 then Num 0 else PosInf)"
| "fl_pow_cases PosInf PosInf = PosInf"
| "fl_pow_cases PosInf NegInf = Num 0"
| "fl_pow_cases NegInf (Num b) =
     (if b < 0 then Num 0 else if is_integer b \<and> odd \<lfloor>b\<rfloor> then NegInf else PosInf)"
| "fl_pow_cases NegInf PosInf = PosInf"
| "fl_pow_cases NegInf NegInf = Num 0"

definition fl_pow :: "fl \<Rightarrow> fl \<Rightarrow> fl" where
  "fl_pow x y =
     (if y = Num 0 then Num 1 else if x = Num 1 then Num 1 else fl_pow_cases x y)"

section \<open>The pandas operations the notebook calls\<close>

text \<open>
  pandas and NumPy are libraries the notebook imports; the definitions of this section
  follow their documented behaviour for the calls the notebook makes, with the default
  arguments it leaves in place.

  A DataFrame is its list of columns in order, each a ticker and the column's cells from
  the oldest date to the newest; a Series indexed by ticker is a list of pairs. The
  notebook fills the price table column by column (\<open>df[i] = ...\<close>), so tickers are
  distinct and all columns have the same length.
\<close>

type_synonym frame = "(string \<times> fl list) list"

text \<open>\<open>fillna(method='pad')\<close>: a NaN cell takes the last value before it.\<close>

fun pad_from :: "fl \<Rightarrow> fl list \<Rightarrow> fl list" where
  "pad_from prev [] = []"
| "pad_from prev (x # xs) = (if x = NaN then prev # pad_from prev xs else x # pad_from x xs)"

definition fillna_pad :: "fl list \<Rightarrow> fl list" where
  "fillna_pad col = pad_from NaN col"

text \<open>\<open>shift(1)\<close>: every cell moves one date later; the first cell becomes NaN.\<close>

definition shift :: "fl list \<Rightarrow> fl list" where
  "shift col = (if col = [] then [] else NaN # butlast col)"

text \<open>\<open>pct_change()\<close> with its defaults: pad, then \<open>data.div(data.shift(1)) - 1\<close>.\<close>

definition pct_change_col :: "fl list \<Rightarrow> fl list" where
  "pct_change_col col =
     (let data = fillna_pad col
      in map (\<lambda>(a, b). fl_sub (fl_div a b) (Num 1)) (zip data (shift data)))"

definition pct_change :: "frame \<Rightarrow> frame" where
  "pct_change df = map (\<lambda>(name, col). (name, pct_change_col col)) df"

text \<open>\<open>prod()\<close> and \<open>count()\<close> skip NaN cells; the product of no cell is 1.\<close>

definition notna :: "fl \<Rightarrow> bool" where
  "notna x = (x \<noteq> NaN)"

definition prod_skipna :: "fl list \<Rightarrow> fl" where
  "prod_skipna col = foldr fl_mul (filter notna col) (Num 1)"

definition count :: "fl list \<Rightarrow> nat" where
  "count col = length (filter notna col)"

text \<open>
  \<open>cov()\<close>: pairwise covariance of two columns over the dates where both cells are
  finite, normalised by the number of such dates minus one; NaN when there are fewer than
  two such dates.
\<close>

fun complete_pairs :: "fl list \<Rightarrow> fl list \<Rightarrow> (real \<times> real) list" where
  "complete_pairs (Num x # xs) (Num y # ys) = (x, y) # complete_pairs xs ys"
| "complete_pairs (a # xs) (b # ys) = complete_pairs xs ys"
| "complete_pairs xs ys = []"

definition nancov :: "fl list \<Rightarrow> fl list \<Rightarrow> fl" where
  "nancov xs ys =
     (let ps = complete_pairs xs ys;
          nobs = length ps
      in if nobs < 1 then NaN
         else
           let meanx = sum_list (map fst ps) / real nobs;
               meany = sum_list (map snd ps) / real nobs;
               sumx = sum_list (map (\<lambda>(vx, vy). (vx - meanx) * (vy - meany)) ps);
               divisor = real nobs - 1
           in if divisor \<noteq> 0 then Num (sumx / divisor) else NaN)"

definition cov :: "frame \<Rightarrow> frame" where
  "cov df = map (\<lambda>(name, col). (name, map (\<lambda>(other, col'). nancov col' col) df)) df"

section \<open>The notebook's estimators\<close>

text \<open>
  \<^verbatim>\<open>returns = df.pct_change()\<close>

  \<^verbatim>\<open>compound_returns = (1+returns).prod()**(returns['AMZN'].size/3/returns.count()) -1\<close>

  The column \<open>AMZN\<close> is looked up by name: a table without it raises KeyError.
\<close>

definition returns :: "frame \<Rightarrow> frame" where
  "returns df = pct_change df"

definition compound_returns :: "frame \<Rightarrow> py_error + (string \<times> fl) list" where
  "compound_returns df =
     (case map_of (returns df) ''AMZN'' of
        None \<Rightarrow> Inl (KeyError ''AMZN'')
      | Some amzn \<Rightarrow>
          Inr (map (\<lambda>(name, col).
                 (name,
                  fl_sub
                    (fl_pow (prod_skipna (map (fl_add (Num 1)) col))
                       (fl_div (Num (real (length amzn) / 3)) (Num (real (count col)))))
                    (Num 1)))
               (returns df)))"

text \<open>\<^verbatim>\<open>annual_cov_mat = returns.cov()*returns['AMZN'].size/3\<close>\<close>

definition annual_cov_mat :: "frame \<Rightarrow> py_error + frame" where
  "annual_cov_mat df =
     (case map_of (returns df) ''AMZN'' of
        None \<Rightarrow> Inl (KeyError ''AMZN'')
      | Some amzn \<Rightarrow>
          Inr (map (\<lambda>(name, col).
                 (name, map (\<lambda>c. fl_div (fl_mul c (Num (real (length amzn)))) (Num 3)) col))
               (cov (returns df))))"

text \<open>
  The estimation step is the two statements one after the other; an exception of the
  first ends the run. Nothing in them checks how many prices an asset has.
\<close>

definition estimate :: "frame \<Rightarrow> py_error + ((string \<times> fl) list \<times> frame)" where
  "estimate df =
     (case compound_returns df of
        Inl e \<Rightarrow> Inl e
      | Inr mu \<Rightarrow> (case annual_cov_mat df of Inl e \<Rightarrow> Inl e | Inr S \<Rightarrow> Inr (mu, S)))"

section \<open>The notebook's equal-weight portfolio\<close>

text \<open>
  \<^verbatim>\<open>weights=np.full(len(universe),1/len(universe))\<close>

  Python's \<open>1/0\<close> raises ZeroDivisionError.
\<close>

definition weights :: "string list \<Rightarrow> py_error + fl list" where
  "weights universe =
     (if length universe = 0 then Inl ZeroDivisionError
      else Inr (replicate (length universe) (Num (1 / real (length universe)))))"

text \<open>
  \<open>np.dot\<close> of two vectors, and of the matrix of a DataFrame (its rows, one per date or
  asset) with a vector; shapes that do not match raise ValueError.
\<close>

definition fl_sum :: "fl list \<Rightarrow> fl" where
  "fl_sum xs = foldr fl_add xs (Num 0)"

definition np_dot :: "fl list \<Rightarrow> fl list \<Rightarrow> py_error + fl" where
  "np_dot a b =
     (if length a \<noteq> length b then Inl ValueError
      else Inr (fl_sum (map (\<lambda>(x, y). fl_mul x y) (zip a b))))"

definition nrows :: "frame \<Rightarrow> nat" where
  "nrows df = (case df of [] \<Rightarrow> 0 | (name, col) # rest \<Rightarrow> length col)"

definition to_numpy :: "frame \<Rightarrow> fl list list" where
  "to_numpy df = map (\<lambda>i. map (\<lambda>(name, col). col ! i) df) [0..<nrows df]"

definition np_dot_frame :: "frame \<Rightarrow> fl list \<Rightarrow> py_error + fl list" where
  "np_dot_frame df v =
     (if length df \<noteq> length v then Inl ValueError
      else Inr (map (\<lambda>row. fl_sum (map (\<lambda>(x, y). fl_mul x y) (zip row v))) (to_numpy df)))"

text \<open>\<^verbatim>\<open>annual_port_var = np.dot(weights.T,np.dot(annual_cov_mat,weights))\<close>\<close>

definition annual_port_var :: "frame \<Rightarrow> fl list \<Rightarrow> py_error + fl" where
  "annual_port_var cov_mat w =
     (case np_dot_frame cov_mat w of Inl e \<Rightarrow> Inl e | Inr v \<Rightarrow> np_dot w v)"

text \<open>
  \<^verbatim>\<open>annual_port_return = (compound_returns*weights).sum()\<close>

  The product of a Series and an array is taken cell by cell; an array of one cell is
  broadcast over the Series, any other length that differs from the Series' raises
  ValueError. \<open>sum()\<close> skips NaN cells.
\<close>

definition sum_skipna :: "fl list \<Rightarrow> fl" where
  "sum_skipna xs = fl_sum (filter notna xs)"

definition annual_port_return :: "(string \<times> fl) list \<Rightarrow> fl list \<Rightarrow> py_error + fl" where
  "annual_port_return compound w =
     (if length compound = length w
      then Inr (sum_skipna (map (\<lambda>((name, m), x). fl_mul m x) (zip compound w)))
      else case w of
             [x] \<Rightarrow> Inr (sum_skipna (map (\<lambda>(name, m). fl_mul m x) compound))
           | _ \<Rightarrow> Inl ValueError)"

section \<open>The estimators in the specification's words\<close>

text \<open>
  The return series of an asset with prices \<open>p\<^sub>0, p\<^sub>1, ...\<close> is
  \<open>r\<^sub>t = p\<^sub>t / p\<^sub>t\<^sub>-\<^sub>1 - 1\<close> for every date but the first; the expected return compounds it
  geometrically and annualises with \<open>periods_per_year / observed_periods\<close>.
\<close>

definition return_series :: "real list \<Rightarrow> real list" where
  "return_series ps = map (\<lambda>(p, q). q / p - 1) (zip ps (tl ps))"

definition expected_return_spec :: "real \<Rightarrow> real list \<Rightarrow> real" where
  "expected_return_spec periods_per_year rs =
     prod_list (map (\<lambda>r. 1 + r) rs) powr (periods_per_year / real (length rs)) - 1"

text \<open>
  The covariance of two assets is the sample covariance of their return series, with the
  \<open>N - 1\<close> denominator, times the annualisation factor.
\<close>

definition mean :: "real list \<Rightarrow> real" where
  "mean xs = sum_list xs / real (length xs)"

definition sample_covariance :: "real list \<Rightarrow> real list \<Rightarrow> real" where
  "sample_covariance xs ys =
     sum_list (map (\<lambda>(x, y). (x - mean xs) * (y - mean ys)) (zip xs ys))
       / (real (length xs) - 1)"

definition covariance_spec :: "real \<Rightarrow> real list \<Rightarrow> real list \<Rightarrow> real" where
  "covariance_spec annualization_factor rs_i rs_j = annualization_factor * sample_covariance rs_i rs_j"

section \<open>Portfolio statistics in the specification's words\<close>

text \<open>
  The dot product \<open>w\<^sup>t\<mu>\<close>, the product \<open>\<Sigma> w\<close> of a matrix, given by its rows, with a
  vector, and the quadratic form \<open>w\<^sup>t\<Sigma> w\<close>, over the reals; a covariance matrix is positive
  semi-definite.
\<close>

type_synonym vec = "real list"
type_synonym mat = "real list list"

definition dot :: "vec \<Rightarrow> vec \<Rightarrow> real" where
  "dot w v = sum_list (map (\<lambda>(a, b). a * b) (zip w v))"

definition mat_vec :: "mat \<Rightarrow> vec \<Rightarrow> vec" where
  "mat_vec S w = map (\<lambda>row. dot row w) S"

definition quad_form :: "mat \<Rightarrow> vec \<Rightarrow> real" where
  "quad_form S w = dot w (mat_vec S w)"

definition psd :: "mat \<Rightarrow> bool" where
  "psd S = (\<forall>w. length w = length S \<longrightarrow> 0 \<le> quad_form S w)"

section \<open>The optimizer and the evaluator\<close>

text \<open>
  The notebook optimises and evaluates through \<open>EfficientFrontier.min_volatility\<close>,
  \<open>EfficientFrontier.max_sharpe\<close> and \<open>EfficientFrontier.portfolio_performance\<close> of the
  PyPortfolioOpt library; it only calls them, their code is not part of the repository's
  sources. The definitions of this section follow sections 3, 4.3 and 4.4 of the
  specification instead, over the reals. The optimizer may return any minimiser, so it is
  a relation between its inputs and its result.
\<close>

text \<open>
  Modelled from the spec: the constraint set of \<open>EfficientFrontier\<close>. The box of section
  4.3, which "may be widened/removed by configuration"; by default \<open>0 \<le> w\<^sub>i \<le> 1\<close>.
\<close>

record constraints =
  lower :: real
  upper :: real

definition default_constraints :: constraints where
  "default_constraints = \<lparr>lower = 0, upper = 1\<rparr>"

text \<open>
  Modelled from the spec: the feasible region of \<open>EfficientFrontier\<close>. "subject to
  \<open>\<Sigma> w\<^sub>i = 1\<close>, \<open>0 \<le> w\<^sub>i \<le> 1\<close>", with the box of the constraint set.
\<close>

definition feasible :: "constraints \<Rightarrow> nat \<Rightarrow> vec \<Rightarrow> bool" where
  "feasible cs n w =
     (length w = n \<and> sum_list w = 1 \<and> (\<forall>x\<in>set w. lower cs \<le> x \<and> x \<le> upper cs))"

text \<open>
  Modelled from the spec: the result of \<open>EfficientFrontier.min_volatility\<close>.
  "MinimizeVariance: minimize \<open>w\<^sup>t\<Sigma> w\<close> subject to" the constraints; "the optimizer must
  return a valid minimizer".
\<close>

definition min_variance_solution :: "constraints \<Rightarrow> mat \<Rightarrow> vec \<Rightarrow> bool" where
  "min_variance_solution cs S w =
     (feasible cs (length S) w \<and>
      (\<forall>v. feasible cs (length S) v \<longrightarrow> quad_form S w \<le> quad_form S v))"

text \<open>
  Modelled from the spec: the quadratic program inside \<open>EfficientFrontier.max_sharpe\<close>.
  "fix the excess-return numerator to 1 via an auxiliary scaling variable \<open>\<kappa> \<ge> 0\<close> and
  minimize \<open>w\<^sup>t\<Sigma> w\<close> subject to \<open>(w\<cdot>\<mu> - r\<^sub>f\<cdot>\<kappa>) = 1\<close>, \<open>\<Sigma> w\<^sub>i = \<kappa>\<close>, \<open>0 \<le> w\<^sub>i \<le> \<kappa>\<close>".
\<close>

definition sharpe_qp_feasible :: "constraints \<Rightarrow> vec \<Rightarrow> real \<Rightarrow> nat \<Rightarrow> vec \<Rightarrow> real \<Rightarrow> bool" where
  "sharpe_qp_feasible cs mu rf n y k =
     (length y = n \<and> 0 \<le> k \<and> dot y mu - rf * k = 1 \<and> sum_list y = k \<and>
      (\<forall>x\<in>set y. lower cs * k \<le> x \<and> x \<le> upper cs * k))"

text \<open>
  Modelled from the spec: the result of \<open>EfficientFrontier.max_sharpe\<close>. A minimiser of
  that program, "then recover \<open>w = (original solution)/\<kappa>\<close>".
\<close>

definition max_sharpe_solution :: "constraints \<Rightarrow> vec \<Rightarrow> mat \<Rightarrow> real \<Rightarrow> vec \<Rightarrow> bool" where
  "max_sharpe_solution cs mu S rf w =
     (\<exists>y k. sharpe_qp_feasible cs mu rf (length S) y k \<and>
        (\<forall>y' k'. sharpe_qp_feasible cs mu rf (length S) y' k' \<longrightarrow>
                 quad_form S y \<le> quad_form S y') \<and>
        w = map (\<lambda>x. x / k) y)"

text \<open>
  Modelled from the spec: the objectives and the failures of the optimizer (sections 3 and
  4.3); MaximizeSharpe carries the risk-free rate.
\<close>

datatype objective = MinimizeVariance | MaximizeSharpe real

datatype optimizer_error =
  InfeasibleConstraintsError | SolverDivergenceError | NoFeasibleSharpeImprovementError

text \<open>
  Modelled from the spec: \<open>optimize(\<mu>, \<Sigma>, objective, constraints)\<close>, which stands for the
  two \<open>EfficientFrontier\<close> calls. It returns a solution of the objective;
  MaximizeSharpe does so only "when an asset with \<open>\<mu>\<^sub>i > r\<^sub>f\<close> exists" and otherwise fails
  with NoFeasibleSharpeImprovementError; it fails with InfeasibleConstraintsError "if
  constraints admit no solution", and the solver may not converge.
\<close>

definition optimize :: "vec \<Rightarrow> mat \<Rightarrow> objective \<Rightarrow> constraints \<Rightarrow> optimizer_error + vec \<Rightarrow> bool" where
  "optimize mu S obj cs r =
     (case r of
        Inr w \<Rightarrow>
          (case obj of
             MinimizeVariance \<Rightarrow> min_variance_solution cs S w
           | MaximizeSharpe rf \<Rightarrow> (\<exists>m\<in>set mu. rf < m) \<and> max_sharpe_solution cs mu S rf w)
      | Inl InfeasibleConstraintsError \<Rightarrow> \<not> (\<exists>w. feasible cs (length S) w)
      | Inl SolverDivergenceError \<Rightarrow> True
      | Inl NoFeasibleSharpeImprovementError \<Rightarrow>
          (case obj of MinimizeVariance \<Rightarrow> False | MaximizeSharpe rf \<Rightarrow> \<not> (\<exists>m\<in>set mu. rf < m)))"

text \<open>
  Modelled from the spec: \<open>EfficientFrontier.portfolio_performance\<close>. "expected annual
  return = \<open>w\<^sup>t\<mu>\<close>; annual volatility = \<open>sqrt(w\<^sup>t\<Sigma> w)\<close>; Sharpe ratio = (expected return -
  risk-free rate)/volatility. Fails with DegenerateVolatilityError if volatility is ~0
  (division by zero)".
\<close>

datatype evaluator_error = DegenerateVolatilityError

definition evaluate :: "vec \<Rightarrow> vec \<Rightarrow> mat \<Rightarrow> real \<Rightarrow> evaluator_error + real \<times> real \<times> real" where
  "evaluate w mu S rf =
     (let expected_return = dot w mu;
          volatility = sqrt (quad_form S w)
      in if volatility = 0 then Inl DegenerateVolatilityError
         else Inr (expected_return, volatility, (expected_return - rf) / volatility))"

section \<open>Returns of a well-formed price column\<close>

text \<open>
  A price column of the data model is \<open>replicate k NaN @ map Num ps\<close>: \<open>k\<close> absent
  cells at the oldest dates, then the prices \<open>ps\<close>, all positive.
\<close>

lemma pad_from_Num: "pad_from prev (map Num ps) = map Num ps"
  by (induction ps arbitrary: prev) simp_all

lemma pad_from_leading: "pad_from NaN (replicate k NaN @ xs) = replicate k NaN @ pad_from NaN xs"
  by (induction k) simp_all

lemma fillna_pad_valid: "fillna_pad (replicate k NaN @ map Num ps) = replicate k NaN @ map Num ps"
  by (simp add: fillna_pad_def pad_from_leading pad_from_Num)

lemma shift_leading: "shift (replicate k NaN @ xs) = replicate k NaN @ shift xs"
  by (induction k) (auto simp: shift_def)

lemma length_return_series: "length (return_series ps) = length ps - 1"
  by (simp add: return_series_def)

lemma pct_tail:
  "\<forall>x\<in>set (butlast (p # qs)). x \<noteq> 0 \<Longrightarrow>
   map (\<lambda>(a, b). fl_sub (fl_div a b) (Num 1)) (zip (map Num qs) (map Num (butlast (p # qs))))
   = map Num (return_series (p # qs))"
proof (induction qs arbitrary: p)
  case Nil
  then show ?case by (simp add: return_series_def)
next
  case (Cons q qs)
  from Cons.prems have "p \<noteq> 0" and "\<forall>x\<in>set (butlast (q # qs)). x \<noteq> 0" by auto
  with Cons.IH [of q] show ?case
    by (simp add: return_series_def fl_sub_def)
qed

lemma pct_leading:
  "map (\<lambda>(a, b). fl_sub (fl_div a b) (Num 1)) (zip (replicate k NaN @ xs) (replicate k NaN @ ys))
   = replicate k NaN @ map (\<lambda>(a, b). fl_sub (fl_div a b) (Num 1)) (zip xs ys)"
  by (induction k) (simp_all add: fl_sub_def)

lemma pct_change_col_leading:
  "pct_change_col (replicate k NaN @ map Num ps)
   = replicate k NaN @ map (\<lambda>(a, b). fl_sub (fl_div a b) (Num 1)) (zip (map Num ps) (shift (map Num ps)))"
  unfolding pct_change_col_def fillna_pad_valid Let_def shift_leading pct_leading ..

lemma pct_change_col_valid:
  assumes "\<forall>p\<in>set ps. 0 < p" and "ps \<noteq> []"
  shows "pct_change_col (replicate k NaN @ map Num ps)
         = replicate (Suc k) NaN @ map Num (return_series ps)"
proof -
  from assms(2) obtain p qs where ps: "ps = p # qs" by (cases ps) auto
  have nz: "\<forall>x\<in>set (butlast (p # qs)). x \<noteq> 0"
    using assms(1) ps by (auto dest: in_set_butlastD)
  have "shift (map Num (p # qs)) = NaN # map Num (butlast (p # qs))"
    by (simp add: shift_def map_butlast)
  then have "map (\<lambda>(a, b). fl_sub (fl_div a b) (Num 1)) (zip (map Num ps) (shift (map Num ps)))
      = NaN # map Num (return_series (p # qs))"
    using pct_tail [OF nz] by (simp add: ps fl_sub_def)
  then show ?thesis
    unfolding pct_change_col_leading by (simp add: replicate_app_Cons_same ps)
qed

lemma pct_change_col_short:
  assumes "length ps < 2"
  shows "pct_change_col (replicate k NaN @ map Num ps) = replicate (k + length ps) NaN"
proof (cases ps)
  case Nil
  have "pct_change_col (replicate k NaN @ map Num []) = replicate k NaN @ []"
    unfolding pct_change_col_leading by (simp add: shift_def)
  then show ?thesis using Nil by simp
next
  case (Cons p qs)
  with assms have qs: "qs = []" by simp
  have "pct_change_col (replicate k NaN @ map Num [p]) = replicate k NaN @ [NaN]"
    unfolding pct_change_col_leading by (simp add: shift_def fl_sub_def)
  then show ?thesis using Cons qs by (simp add: replicate_append_same)
qed

lemma prod_skipna_leading:
  "prod_skipna (map (fl_add (Num 1)) (replicate k NaN @ map Num rs))
   = Num (prod_list (map (\<lambda>r. 1 + r) rs))"
proof (induction k)
  case 0
  show ?case unfolding prod_skipna_def
    by (induction rs) (simp_all add: notna_def)
next
  case (Suc k)
  then show ?case by (simp add: prod_skipna_def notna_def)
qed

lemma count_leading: "count (replicate k NaN @ map Num rs) = length rs"
proof -
  have a: "filter notna (replicate k NaN) = []"
    by (induction k) (simp_all add: notna_def)
  have b: "filter notna (map Num rs) = map Num rs"
    by (induction rs) (simp_all add: notna_def)
  show ?thesis by (simp add: count_def a b del: replicate_Suc)
qed

lemma return_series_pos:
  "\<forall>p\<in>set ps. 0 < p \<Longrightarrow> 0 < prod_list (map (\<lambda>r. 1 + r) (return_series ps))"
proof (induction ps rule: induct_list012)
  case (3 p q ps)
  then show ?case by (simp add: return_series_def)
qed (simp_all add: return_series_def)

lemma length_pad_from: "length (pad_from prev xs) = length xs"
  by (induction xs arbitrary: prev) simp_all

lemma pad_from_Nil_iff: "pad_from prev xs = [] \<longleftrightarrow> xs = []"
  by (cases xs) simp_all

lemma length_pct_change_col: "length (pct_change_col col) = length col"
  by (simp add: pct_change_col_def fillna_pad_def shift_def length_pad_from Let_def
      pad_from_Nil_iff)

lemma map_of_returns:
  "map_of (returns df) name = map_option pct_change_col (map_of df name)"
  by (induction df) (auto simp: returns_def pct_change_def)

lemma length_returns: "length (returns df) = length df"
  by (simp add: returns_def pct_change_def)

lemma nth_returns:
  "i < length df \<Longrightarrow> returns df ! i = (fst (df ! i), pct_change_col (snd (df ! i)))"
  by (simp add: returns_def pct_change_def case_prod_beta)

lemma compound_value_valid:
  assumes pos: "\<forall>p\<in>set ps. 0 < p" and len: "2 \<le> length ps"
  shows "fl_sub
           (fl_pow (prod_skipna (map (fl_add (Num 1)) (pct_change_col (replicate k NaN @ map Num ps))))
              (fl_div (Num (real T / 3))
                 (Num (real (count (pct_change_col (replicate k NaN @ map Num ps)))))))
           (Num 1)
         = Num (expected_return_spec (real T / 3) (return_series ps))"
proof -
  let ?rs = "return_series ps"
  let ?P = "prod_list (map (\<lambda>r. 1 + r) ?rs)"
  from len have ne: "ps \<noteq> []" by auto
  have n: "0 < length ?rs" using len by (simp add: length_return_series)
  have P: "0 < ?P" using pos by (rule return_series_pos)
  have pc: "pct_change_col (replicate k NaN @ map Num ps) = replicate (Suc k) NaN @ map Num ?rs"
    using pos ne by (rule pct_change_col_valid)
  have e: "fl_div (Num (real T / 3)) (Num (real (length ?rs))) = Num (real T / 3 / real (length ?rs))"
    using n by simp
  have pw: "fl_pow (Num ?P) (Num (real T / 3 / real (length ?rs)))
            = Num (?P powr (real T / 3 / real (length ?rs)))"
    using P by (simp add: fl_pow_def)
  show ?thesis
    unfolding pc prod_skipna_leading count_leading e pw
    by (simp add: fl_sub_def expected_return_spec_def)
qed

lemma compound_returns_Inr:
  "map_of df ''AMZN'' = Some amzn \<Longrightarrow>
   compound_returns df =
     Inr (map (\<lambda>(name, col).
            (name,
             fl_sub
               (fl_pow (prod_skipna (map (fl_add (Num 1)) col))
                  (fl_div (Num (real (length amzn) / 3)) (Num (real (count col)))))
               (Num 1)))
          (returns df))"
  by (simp add: compound_returns_def map_of_returns length_pct_change_col)

lemma compound_returns_KeyError:
  "map_of df ''AMZN'' = None \<Longrightarrow> compound_returns df = Inl (KeyError ''AMZN'')"
  by (simp add: compound_returns_def map_of_returns)

section \<open>C1: the expected annual return\<close>

text \<open>
  C1 (as amended). For every asset of the price table whose column holds at least two
  prices, all positive, after its absent leading cells, \<open>compound_returns\<close> is the
  geometric compounding of the asset's period returns, annualised with the exponent
  \<open>(size / 3) / observed_periods\<close>, where \<open>size\<close> is the number of rows of the
  \<open>AMZN\<close> column (756 in the notebook's data, which gives 252) and \<open>observed_periods\<close>
  is the number of returns, one less than the number of prices: the undefined return of
  the first date is left out, not counted as a zero.
\<close>

theorem compound_returns_annualised:
  assumes "map_of df ''AMZN'' = Some amzn"
    and "i < length df"
    and "df ! i = (name, replicate k NaN @ map Num ps)"
    and "\<forall>p\<in>set ps. 0 < p"
    and "2 \<le> length ps"
  shows "\<exists>mu. compound_returns df = Inr mu \<and> length mu = length df \<and>
           mu ! i = (name, Num (expected_return_spec (real (length amzn) / 3) (return_series ps))) \<and>
           length (return_series ps) = length ps - 1"
proof -
  let ?f = "\<lambda>(name, col).
            (name,
             fl_sub
               (fl_pow (prod_skipna (map (fl_add (Num 1)) col))
                  (fl_div (Num (real (length amzn) / 3)) (Num (real (count col)))))
               (Num 1))"
  have c: "compound_returns df = Inr (map ?f (returns df))"
    using assms(1) by (rule compound_returns_Inr)
  have r: "returns df ! i = (name, pct_change_col (replicate k NaN @ map Num ps))"
    using assms(2,3) by (simp add: nth_returns)
  have v: "?f (returns df ! i)
           = (name, Num (expected_return_spec (real (length amzn) / 3) (return_series ps)))"
    unfolding r prod.case compound_value_valid [OF assms(4,5)] ..
  have "map ?f (returns df) ! i = ?f (returns df ! i)"
    using assms(2) by (simp add: length_returns)
  with c v show ?thesis
    by (simp add: length_returns length_return_series)
qed

text \<open>The theorem at a table of three dates: the exponent is \<open>(3 / 3) / 2\<close>.\<close>

theorem compound_returns_annualised_witness:
  "compound_returns [(''AMZN'', [Num 1, Num 2, Num 4])]
   = Inr [(''AMZN'', Num (expected_return_spec 1 (return_series [1, 2, 4])))]"
  using compound_returns_annualised [of "[(''AMZN'', [Num 1, Num 2, Num 4])]" "[Num 1, Num 2, Num 4]" 0 "''AMZN''" 0 "[1, 2, 4]"]
  by (auto simp: length_Suc_conv)

text \<open>
  C1 as stated fails: on a table of two dates the notebook's exponent is \<open>(2 / 3) / 1\<close>,
  not \<open>252 / 1\<close>.
\<close>

theorem compound_returns_252_counterexample:
  "compound_returns [(''AMZN'', [Num 1, Num 2])] = Inr [(''AMZN'', Num (2 powr (2 / 3) - 1))]
   \<and> expected_return_spec 252 (return_series [1, 2]) = 2 powr 252 - 1
   \<and> (2::real) powr (2 / 3) - 1 < 2 powr 252 - 1"
proof -
  have "(2::real) powr (2 / 3) < 2 powr 1"
    by (rule powr_less_mono) simp_all
  then have lt: "(2::real) powr (2 / 3) < 2" by simp
  have code: "compound_returns [(''AMZN'', [Num 1, Num 2])]
              = Inr [(''AMZN'', Num (2 powr (2 / 3) - 1))]"
    by (simp add: compound_returns_def returns_def pct_change_def pct_change_col_def
        fillna_pad_def shift_def fl_sub_def prod_skipna_def count_def notna_def fl_pow_def)
  have spec: "expected_return_spec 252 (return_series [1, 2]) = 2 powr 252 - 1"
    by (simp add: expected_return_spec_def return_series_def)
  from lt have "(2::real) powr (2 / 3) - 1 < 2 powr 252 - 1" by simp
  with code spec show ?thesis by blast
qed

section \<open>C2: the annualised covariance matrix\<close>

lemma complete_pairs_swap:
  "complete_pairs ys xs = map prod.swap (complete_pairs xs ys)"
  by (induction xs ys rule: complete_pairs.induct) simp_all

lemma nancov_sym: "nancov ys xs = nancov xs ys"
proof -
  show ?thesis
    unfolding nancov_def complete_pairs_swap [of ys xs]
    by (simp add: Let_def comp_def split_def mult.commute)
qed

lemma nancov_diag: "nancov xs xs = NaN \<or> (\<exists>v\<ge>0. nancov xs xs = Num v)"
proof -
  have d: "complete_pairs xs xs = map (\<lambda>p. (fst p, fst p)) (complete_pairs xs xs)"
  proof (induction xs)
    case (Cons a xs)
    then show ?case by (cases a) simp_all
  qed simp
  have nn: "0 \<le> sum_list (map (\<lambda>(vx, vy). (vx - a) * (vy - b)) (map (\<lambda>p. (fst p, fst p)) ps))"
    if "a = b" for a b :: real and ps :: "(real \<times> real) list"
    using that by (induction ps) simp_all
  let ?ps = "complete_pairs xs xs"
  have m: "sum_list (map snd ?ps) = sum_list (map fst ?ps)"
    by (subst d) (simp add: comp_def)
  have s: "0 \<le> sum_list (map (\<lambda>(vx, vy). (vx - a) * (vy - a)) ?ps)" for a
    by (subst d) (rule nn, rule refl)
  show ?thesis
  proof (cases "2 \<le> length ?ps")
    case True
    then have "0 \<le> real (length ?ps) - 1" by simp
    with s have "0 \<le> sum_list (map (\<lambda>(vx, vy). (vx - a) * (vy - a)) ?ps)
                      / (real (length ?ps) - 1)" for a
      by (rule divide_nonneg_nonneg)
    with True show ?thesis
      unfolding nancov_def Let_def m by auto
  next
    case False
    then have "length ?ps = 0 \<or> length ?ps = 1" by linarith
    then show ?thesis
      unfolding nancov_def Let_def by auto
  qed
qed

lemma length_cov: "length (cov df) = length df"
  by (simp add: cov_def)

lemma nth_cov:
  "j < length df \<Longrightarrow>
   cov df ! j = (fst (df ! j), map (\<lambda>c. nancov (snd c) (snd (df ! j))) df)"
  by (simp add: cov_def case_prod_beta)

lemma complete_pairs_Num: "complete_pairs (map Num xs) (map Num ys) = zip xs ys"
proof (induction xs arbitrary: ys)
  case (Cons x xs)
  then show ?case by (cases ys) simp_all
qed simp

lemma complete_pairs_lead_right:
  "length xs = b + length ys \<Longrightarrow>
   complete_pairs (map Num xs) (replicate b NaN @ map Num ys) = zip (drop b xs) ys"
proof (induction b arbitrary: xs)
  case 0
  then show ?case by (simp add: complete_pairs_Num)
next
  case (Suc b)
  then show ?case by (cases xs) simp_all
qed

lemma complete_pairs_lead_left:
  "a + length xs = length ys \<Longrightarrow>
   complete_pairs (replicate a NaN @ map Num xs) (map Num ys) = zip xs (drop a ys)"
proof (induction a arbitrary: ys)
  case 0
  then show ?case by (simp add: complete_pairs_Num)
next
  case (Suc a)
  then show ?case by (cases ys) simp_all
qed

lemma complete_pairs_valid:
  "a + length xs = b + length ys \<Longrightarrow>
   complete_pairs (replicate a NaN @ map Num xs) (replicate b NaN @ map Num ys)
   = zip (drop (b - a) xs) (drop (a - b) ys)"
proof (induction a b rule: diff_induct)
  case (1 a)
  then show ?case using complete_pairs_lead_left [of a xs ys] by simp
next
  case (2 b)
  then show ?case using complete_pairs_lead_right [of xs "Suc b" ys] by simp
next
  case (3 a b)
  then show ?case by simp
qed

lemma drop_return_series: "drop d (return_series ps) = return_series (drop d ps)"
  by (simp add: return_series_def drop_map drop_zip drop_Suc tl_drop)

lemma nancov_Num:
  assumes "length xs = length ys" and "2 \<le> length xs"
  shows "nancov (replicate a NaN @ map Num xs) (replicate a NaN @ map Num ys)
         = Num (sample_covariance xs ys)"
proof -
  have cp: "complete_pairs (replicate a NaN @ map Num xs) (replicate a NaN @ map Num ys) = zip xs ys"
    using complete_pairs_valid [of a xs a ys] assms(1) by simp
  show ?thesis
    unfolding nancov_def cp Let_def
    using assms by (auto simp: sample_covariance_def mean_def)
qed

lemma map_of_returns_AMZN:
  "map_of df ''AMZN'' = Some amzn \<Longrightarrow> map_of (returns df) ''AMZN'' = Some (pct_change_col amzn)"
  by (simp add: map_of_returns)

lemma annual_cov_mat_Inr:
  "map_of df ''AMZN'' = Some amzn \<Longrightarrow>
   annual_cov_mat df =
     Inr (map (\<lambda>(name, col).
            (name, map (\<lambda>c. fl_div (fl_mul c (Num (real (length amzn)))) (Num 3)) col))
          (cov (returns df)))"
  by (simp add: annual_cov_mat_def map_of_returns length_pct_change_col)

lemma annual_entry:
  assumes "i < length df" and "j < length df"
  shows "snd (map (\<lambda>(name, col).
            (name, map (\<lambda>c. fl_div (fl_mul c (Num T)) (Num 3)) col))
          (cov (returns df)) ! j) ! i
         = fl_div (fl_mul (nancov (pct_change_col (snd (df ! i))) (pct_change_col (snd (df ! j))))
                     (Num T)) (Num 3)"
  using assms
  by (simp add: length_cov length_returns nth_cov nth_returns case_prod_beta)

lemma scale_NaN_or_nonneg:
  assumes "c = NaN \<or> (\<exists>v\<ge>0. c = Num v)"
  shows "fl_div (fl_mul c (Num (real n))) (Num 3) = NaN
         \<or> (\<exists>v\<ge>0. fl_div (fl_mul c (Num (real n))) (Num 3) = Num v)"
  using assms
proof
  assume "c = NaN"
  then show ?thesis by simp
next
  assume "\<exists>v\<ge>0. c = Num v"
  then obtain v where v: "0 \<le> v" "c = Num v" by blast
  then have "0 \<le> v * real n / 3" by simp
  moreover have "fl_div (fl_mul c (Num (real n))) (Num 3) = Num (v * real n / 3)"
    using v by simp
  ultimately show ?thesis by blast
qed

lemma nancov_returns_valid:
  assumes rows: "a + length ps = b + length qs"
    and pos: "\<forall>p\<in>set ps. 0 < p" "\<forall>q\<in>set qs. 0 < q"
    and len: "3 \<le> length ps" "3 \<le> length qs"
  shows "nancov (pct_change_col (replicate a NaN @ map Num ps))
                (pct_change_col (replicate b NaN @ map Num qs))
         = Num (sample_covariance (return_series (drop (b - a) ps)) (return_series (drop (a - b) qs)))"
proof -
  let ?xs = "return_series (drop (b - a) ps)" and ?ys = "return_series (drop (a - b) qs)"
  from len have ne: "ps \<noteq> []" "qs \<noteq> []" by auto
  have pa: "pct_change_col (replicate a NaN @ map Num ps)
            = replicate (Suc a) NaN @ map Num (return_series ps)"
    using pos(1) ne(1) by (rule pct_change_col_valid)
  have pb: "pct_change_col (replicate b NaN @ map Num qs)
            = replicate (Suc b) NaN @ map Num (return_series qs)"
    using pos(2) ne(2) by (rule pct_change_col_valid)
  have "Suc a + length (return_series ps) = Suc b + length (return_series qs)"
    using rows len by (simp add: length_return_series)
  then have cp: "complete_pairs (replicate (Suc a) NaN @ map Num (return_series ps))
                   (replicate (Suc b) NaN @ map Num (return_series qs)) = zip ?xs ?ys"
    using complete_pairs_valid [of "Suc a" "return_series ps" "Suc b" "return_series qs"]
    by (simp add: drop_return_series)
  have l: "length ?xs = length ?ys" "2 \<le> length ?xs"
    using rows len by (auto simp: length_return_series)
  have "nancov (map Num ?xs) (map Num ?ys) = Num (sample_covariance ?xs ?ys)"
    using nancov_Num [OF l, of 0] by simp
  moreover have "nancov (replicate (Suc a) NaN @ map Num (return_series ps))
                   (replicate (Suc b) NaN @ map Num (return_series qs))
                 = nancov (map Num ?xs) (map Num ?ys)"
    unfolding nancov_def cp complete_pairs_Num ..
  ultimately show ?thesis unfolding pa pb by simp
qed

text \<open>
  C2 (as amended). For every price table that has the \<open>AMZN\<close> column, \<open>annual_cov_mat\<close>
  is an N-by-N matrix, symmetric, and each diagonal entry is NaN or nonnegative. For two
  assets whose columns hold at least three positive prices each after their absent leading
  cells, the entry is \<open>size / 3\<close> times the sample covariance, with the \<open>N - 1\<close>
  denominator, of their return series over the dates where both have a return; \<open>size\<close> is
  the number of rows of the \<open>AMZN\<close> column (756 in the notebook's data, which gives 252).
\<close>

theorem annual_cov_mat_sample_cov:
  assumes "map_of df ''AMZN'' = Some amzn"
  shows "\<exists>S. annual_cov_mat df = Inr S \<and> length S = length df \<and>
           (\<forall>c\<in>set S. length (snd c) = length df) \<and>
           (\<forall>i<length df. \<forall>j<length df. snd (S ! i) ! j = snd (S ! j) ! i) \<and>
           (\<forall>i<length df. snd (S ! i) ! i = NaN \<or> (\<exists>v\<ge>0. snd (S ! i) ! i = Num v)) \<and>
           (\<forall>i j ni nj a b ps qs.
              i < length df \<and> j < length df \<and>
              df ! i = (ni, replicate a NaN @ map Num ps) \<and>
              df ! j = (nj, replicate b NaN @ map Num qs) \<and>
              a + length ps = b + length qs \<and>
              (\<forall>p\<in>set ps. 0 < p) \<and> (\<forall>q\<in>set qs. 0 < q) \<and>
              3 \<le> length ps \<and> 3 \<le> length qs \<longrightarrow>
              snd (S ! j) ! i =
                Num (covariance_spec (real (length amzn) / 3)
                       (return_series (drop (b - a) ps))
                       (return_series (drop (a - b) qs))))"
proof -
  let ?T = "real (length amzn)"
  let ?S = "map (\<lambda>(name, col).
            (name, map (\<lambda>c. fl_div (fl_mul c (Num ?T)) (Num 3)) col))
          (cov (returns df))"
  have S: "annual_cov_mat df = Inr ?S"
    using assms by (rule annual_cov_mat_Inr)
  have len: "length ?S = length df"
    by (simp add: length_cov length_returns)
  have cols: "\<forall>c\<in>set ?S. length (snd c) = length df"
    by (auto simp: cov_def length_returns)
  have sym: "\<forall>i<length df. \<forall>j<length df. snd (?S ! i) ! j = snd (?S ! j) ! i"
    by (simp add: annual_entry nancov_sym)
  have diag: "\<forall>i<length df. snd (?S ! i) ! i = NaN \<or> (\<exists>v\<ge>0. snd (?S ! i) ! i = Num v)"
  proof (intro allI impI)
    fix i assume i: "i < length df"
    show "snd (?S ! i) ! i = NaN \<or> (\<exists>v\<ge>0. snd (?S ! i) ! i = Num v)"
      unfolding annual_entry [OF i i] by (rule scale_NaN_or_nonneg) (rule nancov_diag)
  qed
  have val: "snd (?S ! j) ! i =
                Num (covariance_spec (?T / 3)
                       (return_series (drop (b - a) ps))
                       (return_series (drop (a - b) qs)))"
    if "i < length df" "j < length df"
      "df ! i = (ni, replicate a NaN @ map Num ps)"
      "df ! j = (nj, replicate b NaN @ map Num qs)"
      "a + length ps = b + length qs"
      "\<forall>p\<in>set ps. 0 < p" "\<forall>q\<in>set qs. 0 < q"
      "3 \<le> length ps" "3 \<le> length qs"
    for i j ni nj a b ps qs
    unfolding annual_entry [OF that(1,2)] that(3,4) snd_conv
      nancov_returns_valid [OF that(5-9)]
    by (simp add: covariance_spec_def)
  from S len cols sym diag val show ?thesis by blast
qed

text \<open>
  The theorem at a table of four dates and two assets, one of them listed a date later:
  the covariance is taken over the two common returns and scaled by \<open>4 / 3\<close>.
\<close>

theorem annual_cov_mat_sample_cov_witness:
  "\<exists>S. annual_cov_mat [(''AMZN'', [Num 1, Num 2, Num 4, Num 4]),
                         (''AXP'', [NaN, Num 1, Num 1, Num 2])] = Inr S \<and>
       length S = 2 \<and>
       snd (S ! 1) ! 0 = Num (covariance_spec (4 / 3) (return_series [2, 4, 4])
                                (return_series [1, 1, 2])) \<and>
       covariance_spec (4 / 3) (return_series [2, 4, 4]) (return_series [1, 1, 2]) = - 2 / 3"
proof -
  let ?df = "[(''AMZN'', [Num 1, Num 2, Num 4, Num 4]), (''AXP'', [NaN, Num 1, Num 1, Num 2])]"
  from annual_cov_mat_sample_cov [of ?df "[Num 1, Num 2, Num 4, Num 4]"]
  obtain S where S: "annual_cov_mat ?df = Inr S" "length S = 2"
    and val: "\<And>i j ni nj a b ps qs.
              i < length ?df \<and> j < length ?df \<and>
              ?df ! i = (ni, replicate a NaN @ map Num ps) \<and>
              ?df ! j = (nj, replicate b NaN @ map Num qs) \<and>
              a + length ps = b + length qs \<and>
              (\<forall>p\<in>set ps. 0 < p) \<and> (\<forall>q\<in>set qs. 0 < q) \<and>
              3 \<le> length ps \<and> 3 \<le> length qs \<Longrightarrow>
              snd (S ! j) ! i =
                Num (covariance_spec (real (length [Num 1, Num 2, Num 4, Num 4]) / 3)
                       (return_series (drop (b - a) ps))
                       (return_series (drop (a - b) qs)))"
    by auto
  have "snd (S ! 1) ! 0 = Num (covariance_spec (4 / 3) (return_series [2, 4, 4])
                                (return_series [1, 1, 2]))"
    using val [of 0 1 "''AMZN''" 0 "[1, 2, 4, 4]" "''AXP''" 1 "[1, 1, 2]"] by simp
  moreover have "covariance_spec (4 / 3) (return_series [2, 4, 4]) (return_series [1, 1, 2])
                 = - 2 / 3"
    by (simp add: covariance_spec_def sample_covariance_def mean_def return_series_def)
  ultimately show ?thesis using S by blast
qed

text \<open>
  C2 as stated fails: on a table of three dates the notebook's factor is \<open>3 / 3\<close>, not 252.
\<close>

theorem annual_cov_mat_252_counterexample:
  "annual_cov_mat [(''AMZN'', [Num 1, Num 2, Num 2])] = Inr [(''AMZN'', [Num (1 / 2)])]
   \<and> covariance_spec 252 (return_series [1, 2, 2]) (return_series [1, 2, 2]) = 126"
  by (simp add: annual_cov_mat_def returns_def pct_change_def pct_change_col_def fillna_pad_def
      shift_def fl_sub_def cov_def nancov_def
      covariance_spec_def sample_covariance_def mean_def return_series_def)

section \<open>C8: an asset with fewer than two prices\<close>

lemma pct_change_col_NaN:
  "length ps < 2 \<Longrightarrow> set (pct_change_col (replicate k NaN @ map Num ps)) \<subseteq> {NaN}"
  by (auto simp: pct_change_col_short)

lemma complete_pairs_all_NaN: "set xs \<subseteq> {NaN} \<Longrightarrow> complete_pairs xs ys = []"
proof (induction xs arbitrary: ys)
  case (Cons x xs)
  then show ?case by (cases ys) simp_all
qed simp

lemma prod_skipna_all_NaN: "prod_skipna (map (fl_add (Num 1)) (replicate n NaN)) = Num 1"
  by (induction n) (simp_all add: prod_skipna_def notna_def)

lemma compound_value_short:
  assumes "length ps < 2"
  shows "fl_sub
           (fl_pow (prod_skipna (map (fl_add (Num 1)) (pct_change_col (replicate k NaN @ map Num ps))))
              (fl_div (Num (real T / 3))
                 (Num (real (count (pct_change_col (replicate k NaN @ map Num ps)))))))
           (Num 1)
         = Num 0"
  unfolding pct_change_col_short [OF assms] prod_skipna_all_NaN
  by (simp add: fl_pow_def fl_sub_def)

text \<open>
  C8 (as amended). For every price table that has the \<open>AMZN\<close> column, the estimation step
  returns a value and does not fail for lack of data: an asset whose column holds fewer
  than two prices after its absent leading cells gets the expected return 0 (the empty
  product 1, raised to an infinite or NaN exponent, minus 1) and NaN in every covariance
  entry of its column.
\<close>

theorem estimate_returns_a_value:
  assumes "map_of df ''AMZN'' = Some amzn"
  shows "\<exists>mu S. estimate df = Inr (mu, S) \<and>
           (\<forall>i name k ps.
              i < length df \<and> df ! i = (name, replicate k NaN @ map Num ps) \<and> length ps < 2 \<longrightarrow>
              mu ! i = (name, Num 0) \<and> (\<forall>j<length df. snd (S ! i) ! j = NaN))"
proof -
  let ?f = "\<lambda>(name, col).
            (name,
             fl_sub
               (fl_pow (prod_skipna (map (fl_add (Num 1)) col))
                  (fl_div (Num (real (length amzn) / 3)) (Num (real (count col)))))
               (Num 1))"
  let ?S = "map (\<lambda>(name, col).
            (name, map (\<lambda>c. fl_div (fl_mul c (Num (real (length amzn)))) (Num 3)) col))
          (cov (returns df))"
  have c: "compound_returns df = Inr (map ?f (returns df))"
    using assms by (rule compound_returns_Inr)
  have S: "annual_cov_mat df = Inr ?S"
    using assms by (rule annual_cov_mat_Inr)
  have e: "estimate df = Inr (map ?f (returns df), ?S)"
    by (simp add: estimate_def c S)
  have short: "map ?f (returns df) ! i = (name, Num 0) \<and> (\<forall>j<length df. snd (?S ! i) ! j = NaN)"
    if i: "i < length df" and col: "df ! i = (name, replicate k NaN @ map Num ps)"
      and len: "length ps < 2"
    for i name k ps
  proof
    have r: "returns df ! i = (name, pct_change_col (replicate k NaN @ map Num ps))"
      using i col by (simp add: nth_returns)
    have "?f (returns df ! i) = (name, Num 0)"
      unfolding r prod.case compound_value_short [OF len] ..
    then show "map ?f (returns df) ! i = (name, Num 0)"
      using i by (simp add: length_returns)
    show "\<forall>j<length df. snd (?S ! i) ! j = NaN"
    proof (intro allI impI)
      fix j assume j: "j < length df"
      have "complete_pairs (pct_change_col (snd (df ! i))) (pct_change_col (snd (df ! j))) = []"
        using complete_pairs_all_NaN [OF pct_change_col_NaN [OF len, of k]] col
        by simp
      then have "complete_pairs (pct_change_col (snd (df ! j))) (pct_change_col (snd (df ! i))) = []"
        using complete_pairs_swap
          [of "pct_change_col (snd (df ! j))" "pct_change_col (snd (df ! i))"]
        by simp
      then have "nancov (pct_change_col (snd (df ! j))) (pct_change_col (snd (df ! i))) = NaN"
        by (simp add: nancov_def)
      then show "snd (?S ! i) ! j = NaN"
        unfolding annual_entry [OF j i] by simp
    qed
  qed
  from e short show ?thesis by blast
qed

text \<open>The theorem at a table whose second asset has a single price.\<close>

theorem estimate_returns_a_value_witness:
  "\<exists>mu S. estimate [(''AMZN'', [Num 1, Num 2, Num 4]), (''AXP'', [NaN, NaN, Num 5])] = Inr (mu, S)
     \<and> mu ! 1 = (''AXP'', Num 0) \<and> snd (S ! 1) ! 0 = NaN \<and> snd (S ! 1) ! 1 = NaN"
proof -
  let ?df = "[(''AMZN'', [Num 1, Num 2, Num 4]), (''AXP'', [NaN, NaN, Num 5])]"
  have h: "map_of ?df ''AMZN'' = Some [Num 1, Num 2, Num 4]" by simp
  from estimate_returns_a_value [OF h]
  obtain mu S where e: "estimate ?df = Inr (mu, S)"
    and short: "\<And>i name k ps.
              i < length ?df \<and> ?df ! i = (name, replicate k NaN @ map Num ps) \<and> length ps < 2 \<Longrightarrow>
              mu ! i = (name, Num 0) \<and> (\<forall>j<length ?df. snd (S ! i) ! j = NaN)"
    by blast
  from short [of 1 "''AXP''" 2 "[5]"]
  have "mu ! 1 = (''AXP'', Num 0)" and n: "\<forall>j<length ?df. snd (S ! 1) ! j = NaN"
    by (simp_all add: numeral_2_eq_2)
  moreover from n have "snd (S ! 1) ! 0 = NaN" and "snd (S ! 1) ! 1 = NaN"
    by simp_all
  ultimately show ?thesis using e by blast
qed

text \<open>
  C8 as stated fails: on a table whose only asset has a single price the estimation step
  returns a value.
\<close>

theorem estimate_insufficient_data_counterexample:
  "estimate [(''AMZN'', [Num 1])] = Inr ([(''AMZN'', Num 0)], [(''AMZN'', [NaN])])"
  by (simp add: estimate_def compound_returns_def annual_cov_mat_def returns_def pct_change_def
      pct_change_col_def fillna_pad_def shift_def fl_sub_def prod_skipna_def count_def notna_def
      fl_pow_def inf_of_sign_def cov_def nancov_def)

section \<open>The equal-weight statistics on finite values\<close>

text \<open>
  On finite values the notebook's \<open>annual_port_return\<close> is the dot product of the expected
  returns and the weights, and its \<open>annual_port_var\<close> is the quadratic form of the
  covariance matrix.
\<close>

lemma dot_scale_left: "dot (map (\<lambda>x. c * x) w) v = c * dot w v"
  unfolding dot_def
  by (induction w v rule: list_induct2') (simp_all add: distrib_left mult.assoc)

lemma dot_scale_right: "dot v (map (\<lambda>x. c * x) w) = c * dot v w"
  unfolding dot_def
  by (induction v w rule: list_induct2') (simp_all add: distrib_left mult.left_commute)

lemma quad_form_scale: "quad_form S (map (\<lambda>x. c * x) w) = c\<^sup>2 * quad_form S w"
proof -
  have "mat_vec S (map (\<lambda>x. c * x) w) = map (\<lambda>x. c * x) (mat_vec S w)"
    by (simp add: mat_vec_def dot_scale_right)
  then show ?thesis
    by (simp add: quad_form_def dot_scale_left dot_scale_right power2_eq_square)
qed

lemma sum_list_scale: "sum_list (map (\<lambda>x. c * x) w) = c * sum_list (w :: real list)"
  by (induction w) (simp_all add: algebra_simps)

lemma fl_dot_Num:
  "fl_sum (map (\<lambda>(x, y). fl_mul x y) (zip (map Num a) (map Num b))) = Num (dot a b)"
  unfolding fl_sum_def dot_def
  by (induction a b rule: list_induct2') simp_all

lemma np_dot_Num:
  "length a = length b \<Longrightarrow> np_dot (map Num a) (map Num b) = Inr (Num (dot a b))"
  by (simp add: np_dot_def fl_dot_Num)

lemma annual_port_var_Num:
  assumes "length A = length S" and "to_numpy A = map (map Num) S" and "length w = length S"
  shows "annual_port_var A (map Num w) = Inr (Num (quad_form S w))"
proof -
  have "map (\<lambda>row. fl_sum (map (\<lambda>(x, y). fl_mul x y) (zip row (map Num w)))) (map (map Num) S)
        = map Num (mat_vec S w)"
    by (simp add: mat_vec_def fl_dot_Num comp_def)
  then have nf: "np_dot_frame A (map Num w) = Inr (map Num (mat_vec S w))"
    using assms(1,3) by (simp add: np_dot_frame_def assms(2))
  show ?thesis
    unfolding annual_port_var_def nf sum.case quad_form_def
    by (rule np_dot_Num) (simp add: mat_vec_def assms(3))
qed

lemma sum_skipna_Num: "sum_skipna (map Num xs) = Num (sum_list xs)"
  unfolding sum_skipna_def fl_sum_def
  by (induction xs) (simp_all add: notna_def)

lemma weighted_Num:
  "map snd compound = map Num mu \<Longrightarrow>
   map (\<lambda>((name, m), x). fl_mul m x) (zip compound (map Num w))
   = map Num (map (\<lambda>(a, b). a * b) (zip mu w))"
proof (induction compound arbitrary: mu w)
  case Nil
  then show ?case by simp
next
  case (Cons c compound)
  then obtain m mu' where mu: "mu = m # mu'" "snd c = Num m" "map snd compound = map Num mu'"
    by (cases mu) auto
  show ?case
  proof (cases w)
    case Nil
    then show ?thesis by simp
  next
    case (Cons x w')
    with mu Cons.IH [OF mu(3), of w'] show ?thesis
      by (cases c) simp
  qed
qed

lemma annual_port_return_Num:
  assumes "length mu = length w" and "map snd compound = map Num mu"
  shows "annual_port_return compound (map Num w) = Inr (Num (dot mu w))"
proof -
  have l: "length compound = length mu"
    using assms(2) by (metis length_map)
  show ?thesis
    unfolding annual_port_return_def weighted_Num [OF assms(2)] sum_skipna_Num dot_def
    using l assms(1) by simp
qed

section \<open>C5: minimum variance against equal weights\<close>

lemma equal_weights_feasible:
  "0 < n \<Longrightarrow> feasible default_constraints n (replicate n (1 / real n))"
  by (simp add: feasible_def default_constraints_def sum_list_replicate)

text \<open>
  C5. For every \<open>\<mu>\<close> and every covariance matrix \<open>\<Sigma>\<close>, the volatility that the
  evaluator reports for a weight vector that MinimizeVariance returns under the default
  constraints is at most the volatility of the equal-weight vector over the same
  \<open>(\<mu>, \<Sigma>)\<close>: both the square root of the notebook's \<open>annual_port_var\<close> for its \<open>weights\<close>
  and the volatility that the evaluator reports for that vector.
\<close>

theorem min_variance_le_equal_weight:
  assumes "psd S"
    and "optimize mu S MinimizeVariance default_constraints (Inr w)"
    and "evaluate w mu S rf = Inr (ret, vol, sharpe)"
    and "length universe = length S"
    and "length A = length S" and "to_numpy A = map (map Num) S"
  shows "\<exists>e v. weights universe = Inr (map Num e) \<and>
           annual_port_var A (map Num e) = Inr (Num v) \<and> vol \<le> sqrt v \<and>
           (\<forall>ret' vol' sharpe'. evaluate e mu S rf = Inr (ret', vol', sharpe') \<longrightarrow> vol \<le> vol')"
proof -
  let ?n = "length S"
  let ?e = "replicate ?n (1 / real ?n)"
  from assms(2) have f: "feasible default_constraints ?n w"
    and opt: "\<And>v. feasible default_constraints ?n v \<Longrightarrow> quad_form S w \<le> quad_form S v"
    by (simp_all add: optimize_def min_variance_solution_def)
  from f have n: "0 < ?n"
    by (auto simp: feasible_def)
  have w: "weights universe = Inr (map Num ?e)"
    using n assms(4) by (simp add: weights_def)
  have v: "annual_port_var A (map Num ?e) = Inr (Num (quad_form S ?e))"
    using assms(5,6) by (rule annual_port_var_Num) simp
  have "quad_form S w \<le> quad_form S ?e"
    using n by (intro opt equal_weights_feasible)
  then have le: "sqrt (quad_form S w) \<le> sqrt (quad_form S ?e)" by simp
  from assms(3) have vol: "vol = sqrt (quad_form S w)"
    by (auto simp: evaluate_def Let_def split: if_splits)
  have "vol \<le> vol'" if "evaluate ?e mu S rf = Inr (ret', vol', sharpe')" for ret' vol' sharpe'
    using that le vol by (auto simp: evaluate_def Let_def split: if_splits)
  with w v le vol show ?thesis by blast
qed

lemma vec2: "length (w :: real list) = 2 \<Longrightarrow> \<exists>a b. w = [a, b]"
  by (cases w; cases "tl w") auto

lemma psd_diag2: "0 \<le> c \<Longrightarrow> 0 \<le> d \<Longrightarrow> psd [[c, 0], [0, d]]"
  unfolding psd_def
proof (intro allI impI)
  fix w :: "real list"
  assume c: "0 \<le> c" and d: "0 \<le> d" and "length w = length [[c, 0], [0, d]]"
  then obtain a b where w: "w = [a, b]" using vec2 [of w] by auto
  have "0 \<le> c * (a * a) + d * (b * b)" using c d by simp
  then show "0 \<le> quad_form [[c, 0], [0, d]] w"
    by (simp add: w quad_form_def mat_vec_def dot_def algebra_simps)
qed

lemma min_variance_diag_2_1:
  "min_variance_solution default_constraints [[2, 0], [0, 1]] [1 / 3, 2 / 3]"
  unfolding min_variance_solution_def
proof (intro conjI allI impI)
  show "feasible default_constraints (length [[2, 0], [0, 1::real]]) [1 / 3, 2 / 3]"
    by (simp add: feasible_def default_constraints_def)
next
  fix v :: "real list"
  assume "feasible default_constraints (length [[2, 0], [0, 1::real]]) v"
  then have l: "length v = 2" and s: "sum_list v = 1" by (simp_all add: feasible_def)
  from l obtain a b where v: "v = [a, b]" using vec2 by blast
  with s have b: "b = 1 - a" by simp
  have "0 \<le> (3 * a - 1)\<^sup>2" by simp
  then have "2 / 3 \<le> 2 * (a * a) + (1 - a) * (1 - a)"
    by (simp add: power2_eq_square algebra_simps)
  then show "quad_form [[2, 0], [0, 1]] [1 / 3, 2 / 3] \<le> quad_form [[2, 0], [0, 1]] v"
    by (simp add: v b quad_form_def mat_vec_def dot_def)
qed

text \<open>
  The theorem at two assets with variances 2 and 1 and no covariance: the minimiser is
  \<open>(1/3, 2/3)\<close> with variance \<open>2/3\<close>; equal weights give \<open>3/4\<close>.
\<close>

theorem min_variance_le_equal_weight_witness:
  "psd [[2, 0], [0, 1]] \<and>
   optimize [1, 1] [[2, 0], [0, 1]] MinimizeVariance default_constraints (Inr [1 / 3, 2 / 3]) \<and>
   evaluate [1 / 3, 2 / 3] [1, 1] [[2, 0], [0, 1]] 0 = Inr (1, sqrt (2 / 3), 1 / sqrt (2 / 3)) \<and>
   weights [''AMZN'', ''AXP''] = Inr [Num (1 / 2), Num (1 / 2)] \<and>
   annual_port_var [(''AMZN'', [Num 2, Num 0]), (''AXP'', [Num 0, Num 1])]
     [Num (1 / 2), Num (1 / 2)] = Inr (Num (3 / 4)) \<and>
   sqrt (2 / 3) \<le> sqrt (3 / 4)"
proof -
  let ?S = "[[2, 0], [0, 1 :: real]]"
  let ?A = "[(''AMZN'', [Num 2, Num 0]), (''AXP'', [Num 0, Num 1])]"
  have p: "psd ?S" by (rule psd_diag2) simp_all
  have o: "optimize [1, 1] ?S MinimizeVariance default_constraints (Inr [1 / 3, 2 / 3])"
    by (simp add: optimize_def min_variance_diag_2_1)
  have e: "evaluate [1 / 3, 2 / 3] [1, 1] ?S 0 = Inr (1, sqrt (2 / 3), 1 / sqrt (2 / 3))"
    by (simp add: evaluate_def quad_form_def mat_vec_def dot_def Let_def)
  have u: "length [''AMZN'', ''AXP''] = length ?S" by simp
  have a: "length ?A = length ?S" by simp
  have n: "to_numpy ?A = map (map Num) ?S"
    by (simp add: to_numpy_def nrows_def upt_conv_Cons)
  have ws: "weights [''AMZN'', ''AXP''] = Inr [Num (1 / 2), Num (1 / 2)]"
    by (simp add: weights_def numeral_2_eq_2)
  from min_variance_le_equal_weight [OF p o e u a n]
  obtain eq v where "weights [''AMZN'', ''AXP''] = Inr (map Num eq)"
    and v: "annual_port_var ?A (map Num eq) = Inr (Num v)" and le: "sqrt (2 / 3) \<le> sqrt v"
    by blast
  with ws have eq: "map Num eq = [Num (1 / 2), Num (1 / 2)]" by simp
  have "annual_port_var ?A [Num (1 / 2), Num (1 / 2)] = Inr (Num (3 / 4))"
    by (simp add: annual_port_var_def np_dot_frame_def np_dot_def to_numpy_def nrows_def
        upt_conv_Cons fl_sum_def)
  with v eq have "v = 3 / 4" by simp
  with le p o e ws \<open>annual_port_var ?A [Num (1 / 2), Num (1 / 2)] = Inr (Num (3 / 4))\<close>
  show ?thesis by blast
qed

section \<open>C6: maximum Sharpe against minimum variance\<close>

lemma dot_zero_left: "\<forall>x\<in>set y. x = 0 \<Longrightarrow> dot y mu = 0"
  unfolding dot_def
  by (induction y mu rule: list_induct2') simp_all

lemma sharpe_qp_positive_scale:
  assumes "sharpe_qp_feasible cs mu rf n y k"
  shows "0 < k"
proof (rule ccontr)
  assume "\<not> 0 < k"
  with assms have k: "k = 0" by (simp add: sharpe_qp_feasible_def)
  with assms have "\<forall>x\<in>set y. x = 0" by (auto simp: sharpe_qp_feasible_def)
  then have "dot y mu = 0" by (rule dot_zero_left)
  with assms k show False by (simp add: sharpe_qp_feasible_def)
qed

lemma feasible_to_sharpe_qp:
  assumes f: "feasible cs n v" and e: "0 < dot v mu - rf"
  shows "sharpe_qp_feasible cs mu rf n (map (\<lambda>x. (1 / (dot v mu - rf)) * x) v)
           (1 / (dot v mu - rf))"
proof -
  let ?e = "dot v mu - rf"
  have "dot (map (\<lambda>x. (1 / ?e) * x) v) mu - rf * (1 / ?e) = (1 / ?e) * ?e"
    unfolding dot_scale_left by (simp only: right_diff_distrib mult.commute [of rf])
  then have one: "dot (map (\<lambda>x. (1 / ?e) * x) v) mu - rf * (1 / ?e) = 1"
    using e by simp
  have s: "sum_list (map (\<lambda>x. (1 / ?e) * x) v) = 1 / ?e"
    using f unfolding sum_list_scale by (simp add: feasible_def)
  have b: "\<forall>x\<in>set (map (\<lambda>x. (1 / ?e) * x) v).
             lower cs * (1 / ?e) \<le> x \<and> x \<le> upper cs * (1 / ?e)"
    using f e by (auto simp: feasible_def divide_right_mono)
  from f have "length (map (\<lambda>x. (1 / ?e) * x) v) = n" by (simp add: feasible_def)
  moreover from e have "0 \<le> 1 / ?e" by simp
  ultimately show ?thesis
    unfolding sharpe_qp_feasible_def using one s b by blast
qed

lemma max_sharpe_dominates:
  assumes psd: "psd S"
    and f: "feasible cs (length S) v"
    and m: "max_sharpe_solution cs mu S rf w"
    and v0: "sqrt (quad_form S v) \<noteq> 0"
    and w0: "sqrt (quad_form S w) \<noteq> 0"
  shows "(dot v mu - rf) / sqrt (quad_form S v) \<le> (dot w mu - rf) / sqrt (quad_form S w)"
proof -
  from m obtain y k where qp: "sharpe_qp_feasible cs mu rf (length S) y k"
    and opt: "\<And>y' k'. sharpe_qp_feasible cs mu rf (length S) y' k' \<Longrightarrow>
                quad_form S y \<le> quad_form S y'"
    and w: "w = map (\<lambda>x. x / k) y"
    unfolding max_sharpe_solution_def by blast
  from qp have k: "0 < k" by (rule sharpe_qp_positive_scale)
  have w': "w = map (\<lambda>x. (1 / k) * x) y" by (simp add: w)
  let ?q = "sqrt (quad_form S y)"
  have qw: "sqrt (quad_form S w) = (1 / k) * ?q"
    unfolding w' quad_form_scale using k by (simp add: real_sqrt_mult)
  from qp have "length y = length S" by (simp add: sharpe_qp_feasible_def)
  with psd have "0 \<le> quad_form S y" by (simp add: psd_def)
  moreover from w0 qw have "?q \<noteq> 0" by auto
  ultimately have q: "0 < ?q" by (simp add: less_le)
  from qp have "dot y mu - rf * k = 1" by (simp add: sharpe_qp_feasible_def)
  then have "dot w mu - rf = 1 / k"
    unfolding w' dot_scale_left using k by (simp add: field_simps)
  then have sw: "(dot w mu - rf) / sqrt (quad_form S w) = 1 / ?q"
    using k qw by simp
  from f psd have "0 \<le> quad_form S v" by (simp add: psd_def feasible_def)
  with v0 have p: "0 < sqrt (quad_form S v)" by (simp add: less_le)
  let ?e = "dot v mu - rf"
  show ?thesis
  proof (cases "0 < ?e")
    case False
    then have "?e / sqrt (quad_form S v) \<le> 0"
      using p by (simp add: divide_le_0_iff)
    also have "0 \<le> 1 / ?q" using q by simp
    finally show ?thesis by (simp only: sw)
  next
    case True
    from opt [OF feasible_to_sharpe_qp [OF f True]]
    have "quad_form S y \<le> (1 / ?e)\<^sup>2 * quad_form S v"
      by (simp only: quad_form_scale)
    then have "?q \<le> sqrt ((1 / ?e)\<^sup>2 * quad_form S v)"
      by (simp only: real_sqrt_le_iff)
    also have "\<dots> = (1 / ?e) * sqrt (quad_form S v)"
      using True by (simp add: real_sqrt_mult)
    finally have "?e * ?q \<le> sqrt (quad_form S v)"
      using True by (simp add: field_simps)
    then have "?e / sqrt (quad_form S v) \<le> 1 / ?q"
      using p q by (simp add: field_simps)
    then show ?thesis by (simp only: sw)
  qed
qed

text \<open>
  C6. For every \<open>\<mu>\<close>, every covariance matrix \<open>\<Sigma>\<close>, every risk-free rate and every
  constraint set, the Sharpe ratio that the evaluator reports for a weight vector that
  MaximizeSharpe returns is at least the one it reports for a weight vector that
  MinimizeVariance returns under the same constraints.
\<close>

theorem max_sharpe_ge_min_variance:
  assumes "psd S"
    and "optimize mu S MinimizeVariance cs (Inr w_min)"
    and "optimize mu S (MaximizeSharpe rf) cs (Inr w_max)"
    and "evaluate w_min mu S rf = Inr (ret_min, vol_min, sharpe_min)"
    and "evaluate w_max mu S rf = Inr (ret_max, vol_max, sharpe_max)"
  shows "sharpe_min \<le> sharpe_max"
proof -
  from assms(2) have f: "feasible cs (length S) w_min"
    by (simp add: optimize_def min_variance_solution_def)
  from assms(3) have m: "max_sharpe_solution cs mu S rf w_max"
    by (simp add: optimize_def)
  from assms(4) have v0: "sqrt (quad_form S w_min) \<noteq> 0"
    and s1: "sharpe_min = (dot w_min mu - rf) / sqrt (quad_form S w_min)"
    by (auto simp: evaluate_def Let_def split: if_splits)
  from assms(5) have w0: "sqrt (quad_form S w_max) \<noteq> 0"
    and s2: "sharpe_max = (dot w_max mu - rf) / sqrt (quad_form S w_max)"
    by (auto simp: evaluate_def Let_def split: if_splits)
  show ?thesis
    unfolding s1 s2 using assms(1) f m v0 w0 by (rule max_sharpe_dominates)
qed

lemma max_sharpe_identity_1_2:
  "max_sharpe_solution default_constraints [1, 2] [[1, 0], [0, 1]] 0 [1 / 3, 2 / 3]"
  unfolding max_sharpe_solution_def
proof (intro exI [of _ "[1 / 5, 2 / 5]"] exI [of _ "3 / 5"] conjI allI impI)
  show "sharpe_qp_feasible default_constraints [1, 2] 0 (length [[1, 0], [0, 1::real]])
          [1 / 5, 2 / 5] (3 / 5)"
    by (simp add: sharpe_qp_feasible_def default_constraints_def dot_def)
next
  fix y' :: "real list" and k' :: real
  assume "sharpe_qp_feasible default_constraints [1, 2] 0 (length [[1, 0], [0, 1::real]]) y' k'"
  then have l: "length y' = 2" and d: "dot y' [1, 2] = 1"
    by (simp_all add: sharpe_qp_feasible_def)
  from l obtain a b where y: "y' = [a, b]" using vec2 by blast
  with d have a: "a = 1 - 2 * b" by (simp add: dot_def)
  have "0 \<le> (5 * b - 2)\<^sup>2" by simp
  then have "1 / 5 \<le> (1 - 2 * b) * (1 - 2 * b) + b * b"
    by (simp add: power2_eq_square algebra_simps)
  then show "quad_form [[1, 0], [0, 1]] [1 / 5, 2 / 5] \<le> quad_form [[1, 0], [0, 1]] y'"
    by (simp add: y a quad_form_def mat_vec_def dot_def)
next
  show "[1 / 3, 2 / 3] = map (\<lambda>x. x / (3 / 5)) [1 / 5, 2 / 5 :: real]" by simp
qed

lemma min_variance_identity:
  "min_variance_solution default_constraints [[1, 0], [0, 1]] [1 / 2, 1 / 2]"
  unfolding min_variance_solution_def
proof (intro conjI allI impI)
  show "feasible default_constraints (length [[1, 0], [0, 1::real]]) [1 / 2, 1 / 2]"
    by (simp add: feasible_def default_constraints_def)
next
  fix v :: "real list"
  assume "feasible default_constraints (length [[1, 0], [0, 1::real]]) v"
  then have l: "length v = 2" and s: "sum_list v = 1" by (simp_all add: feasible_def)
  from l obtain a b where v: "v = [a, b]" using vec2 by blast
  with s have b: "b = 1 - a" by simp
  have "0 \<le> (2 * a - 1)\<^sup>2" by simp
  then have "1 / 2 \<le> a * a + (1 - a) * (1 - a)"
    by (simp add: power2_eq_square algebra_simps)
  then show "quad_form [[1, 0], [0, 1]] [1 / 2, 1 / 2] \<le> quad_form [[1, 0], [0, 1]] v"
    by (simp add: v b quad_form_def mat_vec_def dot_def)
qed

text \<open>
  The theorem at two uncorrelated assets of variance 1 with expected returns 1 and 2:
  minimum variance is \<open>(1/2, 1/2)\<close>, maximum Sharpe is \<open>(1/3, 2/3)\<close>.
\<close>

theorem max_sharpe_ge_min_variance_witness:
  "psd [[1, 0], [0, 1]] \<and>
   optimize [1, 2] [[1, 0], [0, 1]] MinimizeVariance default_constraints (Inr [1 / 2, 1 / 2]) \<and>
   optimize [1, 2] [[1, 0], [0, 1]] (MaximizeSharpe 0) default_constraints (Inr [1 / 3, 2 / 3]) \<and>
   evaluate [1 / 2, 1 / 2] [1, 2] [[1, 0], [0, 1]] 0
     = Inr (3 / 2, sqrt (1 / 2), 3 / 2 / sqrt (1 / 2)) \<and>
   evaluate [1 / 3, 2 / 3] [1, 2] [[1, 0], [0, 1]] 0
     = Inr (5 / 3, sqrt (5 / 9), 5 / 3 / sqrt (5 / 9)) \<and>
   3 / 2 / sqrt (1 / 2) \<le> 5 / 3 / sqrt (5 / 9)"
proof -
  let ?S = "[[1, 0], [0, 1 :: real]]"
  have p: "psd ?S" by (rule psd_diag2) simp_all
  have o1: "optimize [1, 2] ?S MinimizeVariance default_constraints (Inr [1 / 2, 1 / 2])"
    by (simp add: optimize_def min_variance_identity)
  have o2: "optimize [1, 2] ?S (MaximizeSharpe 0) default_constraints (Inr [1 / 3, 2 / 3])"
    by (simp add: optimize_def max_sharpe_identity_1_2)
  have e1: "evaluate [1 / 2, 1 / 2] [1, 2] ?S 0 = Inr (3 / 2, sqrt (1 / 2), 3 / 2 / sqrt (1 / 2))"
    by (simp add: evaluate_def quad_form_def mat_vec_def dot_def Let_def)
  have e2: "evaluate [1 / 3, 2 / 3] [1, 2] ?S 0 = Inr (5 / 3, sqrt (5 / 9), 5 / 3 / sqrt (5 / 9))"
    by (simp add: evaluate_def quad_form_def mat_vec_def dot_def Let_def)
  from max_sharpe_ge_min_variance [OF p o1 o2 e1 e2] p o1 o2 e1 e2
  show ?thesis by blast
qed

section \<open>C3: the weights the optimizer returns\<close>

lemma sum_list_divide: "sum_list (map (\<lambda>x. x / k) y) = sum_list y / (k :: real)"
  by (induction y) (simp_all add: add_divide_distrib)

text \<open>
  C3. Every weight vector that the optimizer returns under the default constraint set,
  for MinimizeVariance and for MaximizeSharpe, sums to 1 within the tolerance \<open>1e-6\<close>
  and has every weight in the closed interval from 0 to 1.
\<close>

theorem optimize_weights_in_simplex:
  assumes "optimize mu S obj default_constraints (Inr w)"
  shows "\<bar>sum_list w - 1\<bar> \<le> 1 / 10 ^ 6 \<and> (\<forall>x\<in>set w. 0 \<le> x \<and> x \<le> 1)"
proof (cases obj)
  case MinimizeVariance
  with assms have "feasible default_constraints (length S) w"
    by (simp add: optimize_def min_variance_solution_def)
  then show ?thesis
    by (simp add: feasible_def default_constraints_def)
next
  case (MaximizeSharpe rf)
  with assms have "max_sharpe_solution default_constraints mu S rf w"
    by (simp add: optimize_def)
  then obtain y k where qp: "sharpe_qp_feasible default_constraints mu rf (length S) y k"
    and w: "w = map (\<lambda>x. x / k) y"
    unfolding max_sharpe_solution_def by blast
  from qp have k: "0 < k" by (rule sharpe_qp_positive_scale)
  from qp have s: "sum_list y = k" and b: "\<forall>x\<in>set y. 0 \<le> x \<and> x \<le> k"
    by (simp_all add: sharpe_qp_feasible_def default_constraints_def)
  have "sum_list w = 1"
    unfolding w sum_list_divide using s k by simp
  moreover have "\<forall>x\<in>set w. 0 \<le> x \<and> x \<le> 1"
    unfolding w using b k by simp
  ultimately show ?thesis by simp
qed

text \<open>
  The theorem at two uncorrelated assets of variance 1 with expected returns 1 and 2, for
  both objectives: minimum variance returns \<open>(1/2, 1/2)\<close>, maximum Sharpe \<open>(1/3, 2/3)\<close>.
\<close>

theorem optimize_weights_in_simplex_witness:
  "optimize [1, 2] [[1, 0], [0, 1]] MinimizeVariance default_constraints (Inr [1 / 2, 1 / 2]) \<and>
   optimize [1, 2] [[1, 0], [0, 1]] (MaximizeSharpe 0) default_constraints (Inr [1 / 3, 2 / 3]) \<and>
   \<bar>sum_list [1 / 2, 1 / 2 :: real] - 1\<bar> \<le> 1 / 10 ^ 6 \<and>
   \<bar>sum_list [1 / 3, 2 / 3 :: real] - 1\<bar> \<le> 1 / 10 ^ 6 \<and>
   list_all (\<lambda>x. 0 \<le> x \<and> x \<le> 1) [1 / 2, 1 / 2 :: real] \<and>
   list_all (\<lambda>x. 0 \<le> x \<and> x \<le> 1) [1 / 3, 2 / 3 :: real]"
proof -
  let ?S = "[[1, 0], [0, 1 :: real]]"
  have o1: "optimize [1, 2] ?S MinimizeVariance default_constraints (Inr [1 / 2, 1 / 2])"
    by (simp add: optimize_def min_variance_identity)
  have o2: "optimize [1, 2] ?S (MaximizeSharpe 0) default_constraints (Inr [1 / 3, 2 / 3])"
    by (simp add: optimize_def max_sharpe_identity_1_2)
  from optimize_weights_in_simplex [OF o1]
  have a: "\<bar>sum_list [1 / 2, 1 / 2 :: real] - 1\<bar> \<le> 1 / 10 ^ 6"
    and b: "list_all (\<lambda>x. 0 \<le> x \<and> x \<le> 1) [1 / 2, 1 / 2 :: real]"
    unfolding list_all_iff by blast+
  from optimize_weights_in_simplex [OF o2]
  have c: "\<bar>sum_list [1 / 3, 2 / 3 :: real] - 1\<bar> \<le> 1 / 10 ^ 6"
    and d: "list_all (\<lambda>x. 0 \<le> x \<and> x \<le> 1) [1 / 3, 2 / 3 :: real]"
    unfolding list_all_iff by blast+
  from o1 o2 a b c d show ?thesis by blast
qed

end
